theory Spec2Isabelle
  imports Complex_Main "HOL-Library.Word"
begin

section \<open>Data shared by the client components\<close>

text \<open>
  The \<open>Results\<close> interface of ResultsDisplay.tsx: the payload of a \<open>round_results\<close>
  event. JavaScript numbers are modelled as \<open>real\<close> where they are probabilities or
  ratios and as \<open>int\<close> where they are counts.
\<close>

record verdict =
  human_prob :: real
  reasoning :: string

record judge_verdict_t =
  human :: verdict
  ai :: verdict
  correct :: bool

record player_votes_t =
  left :: int
  right :: int

record Results =
  prompt :: string
  left_response :: string
  right_response :: string
  left_is :: string
  right_is :: string
  judge_verdict :: judge_verdict_t
  player_votes :: player_votes_t
  player_accuracy :: real
  correct_votes :: int
  total_votes :: int

text \<open>A JSON value, as a payload arrives and as a \<open>JSONB\<close> column stores it.\<close>

datatype json =
    JNull | JBool bool | JNum real | JStr string | JArr "json list" | JObj "(string \<times> json) list"

section \<open>The game room component (src/components/GameRoom.tsx)\<close>

text \<open>
  A JavaScript string is a sequence of UTF-16 code units. The text of the response
  box is modelled this way, because its length and its white space matter; texts that
  are only passed on are plain strings.
\<close>

type_synonym jsstring = "16 word list"

datatype vote = Left | Right

text \<open>
  The component's state: the two values it reads from its surroundings (the socket of
  the context, which may be null, and the route parameter \<open>roomId\<close>, which may be
  undefined) and the nine \<open>useState\<close> cells. Within one mount the first two are fixed.
\<close>

record game_room =
  socket :: bool
  roomId :: "string option"
  currentPrompt :: string
  userResponse :: jsstring
  gameState :: string
  results :: "Results option"
  leftResponse :: string
  rightResponse :: string
  playerCount :: int
  timeRemaining :: real
  selectedVote :: "vote option"

definition init_game_room :: "bool \<Rightarrow> string option \<Rightarrow> game_room" where
  "init_game_room sock rid =
     \<lparr>socket = sock, roomId = rid, currentPrompt = '''', userResponse = [],
      gameState = ''waiting'', results = None, leftResponse = '''', rightResponse = '''',
      playerCount = 0, timeRemaining = 0, selectedVote = None\<rparr>"

text \<open>What the component does to the outside: socket emits, and the error alert.\<close>

datatype effect =
    join_room string string
  | leave_room string
  | submit_response "string option" jsstring
  | submit_vote "string option" vote
  | request_new_round "string option"
  | console_error string
  | alert string

text \<open>The events the server sends, with the payload fields the handlers read.
  A \<open>timeout\<close> field is a number, or absent.\<close>

datatype server_event =
    player_joined int
  | new_round string "real option"
  | judging_started
  | voting_phase string string "real option"
  | round_results Results
  | error string

text \<open>What the user and the clock can do to the rendered component.\<close>

datatype ui_event =
    change_response jsstring
  | click_submit_response
  | click_left
  | click_right
  | click_play_another
  | timer_fired

datatype event = Server server_event | UI ui_event

text \<open>\<open>!roomId\<close>: undefined and the empty string are falsy.\<close>

definition has_roomId :: "game_room \<Rightarrow> bool" where
  "has_roomId s = (case roomId s of None \<Rightarrow> False | Some r \<Rightarrow> r \<noteq> '''')"

text \<open>\<open>data.timeout || d\<close>: an absent field and the number 0 are falsy.\<close>

definition timeout_or :: "real option \<Rightarrow> real \<Rightarrow> real" where
  "timeout_or t d = (case t of None \<Rightarrow> d | Some n \<Rightarrow> if n = 0 then d else n)"

text \<open>The first effect: join the room, when there is a socket and a room id.
  The room type comes from local storage, \<open>'general'\<close> when missing or empty.\<close>

definition mount :: "string option \<Rightarrow> game_room \<Rightarrow> effect list" where
  "mount selectedRoomType s =
     (if \<not> socket s \<or> \<not> has_roomId s then []
      else [join_room (the (roomId s))
              (case selectedRoomType of None \<Rightarrow> ''general''
               | Some t \<Rightarrow> if t = '''' then ''general'' else t)])"

definition unmount :: "game_room \<Rightarrow> effect list" where
  "unmount s = (if \<not> socket s \<or> \<not> has_roomId s then [] else [leave_room (the (roomId s))])"

text \<open>The socket listeners, one equation per \<open>socket.on\<close>.\<close>

fun on_server :: "server_event \<Rightarrow> game_room \<Rightarrow> game_room \<times> effect list" where
  "on_server (player_joined n) s = (s\<lparr>playerCount := n\<rparr>, [])"
| "on_server (new_round p t) s =
     (s\<lparr>currentPrompt := p, gameState := ''responding'', userResponse := [],
        timeRemaining := timeout_or t 90\<rparr>, [])"
| "on_server judging_started s = (s\<lparr>gameState := ''judging''\<rparr>, [])"
| "on_server (voting_phase l r t) s =
     (s\<lparr>leftResponse := l, rightResponse := r, gameState := ''voting'',
        timeRemaining := timeout_or t 30, selectedVote := None\<rparr>, [])"
| "on_server (round_results d) s = (s\<lparr>results := Some d, gameState := ''results''\<rparr>, [])"
| "on_server (error m) s = (s, [console_error m, alert m])"

text \<open>The listeners exist only when the first effect got past its guard.\<close>

definition receive :: "server_event \<Rightarrow> game_room \<Rightarrow> game_room \<times> effect list" where
  "receive e s = (if \<not> socket s \<or> \<not> has_roomId s then (s, []) else on_server e s)"

text \<open>\<open>String.prototype.trim\<close> removes WhiteSpace and LineTerminator code units
  from both ends.\<close>

definition isWhiteSpace :: "16 word \<Rightarrow> bool" where
  "isWhiteSpace c =
     (c \<in> {0x0009, 0x000A, 0x000B, 0x000C, 0x000D, 0x0020, 0x00A0, 0x1680, 0x2028, 0x2029,
            0x202F, 0x205F, 0x3000, 0xFEFF} \<or> (0x2000 \<le> c \<and> c \<le> 0x200A))"

definition trim :: "jsstring \<Rightarrow> jsstring" where
  "trim s = rev (dropWhile isWhiteSpace (rev (dropWhile isWhiteSpace s)))"

definition maxLength :: nat where
  "maxLength = 500"

definition submitResponse :: "game_room \<Rightarrow> game_room \<times> effect list" where
  "submitResponse s =
     (if \<not> socket s \<or> trim (userResponse s) = [] then (s, [])
      else (s\<lparr>gameState := ''waiting''\<rparr>, [submit_response (roomId s) (userResponse s)]))"

definition submitVote :: "vote \<Rightarrow> game_room \<Rightarrow> game_room \<times> effect list" where
  "submitVote v s =
     (if \<not> socket s then (s, [])
      else (s\<lparr>selectedVote := Some v\<rparr>, [submit_vote (roomId s) v]))"

definition requestNewRound :: "game_room \<Rightarrow> game_room \<times> effect list" where
  "requestNewRound s =
     (if \<not> socket s then (s, [])
      else (s\<lparr>gameState := ''waiting''\<rparr>, [request_new_round (roomId s)]))"

text \<open>
  A JavaScript number is a double. Its value is modelled as a real, and the result of
  an arithmetic operation is rounded to the nearest double, ties to the even mantissa
  (53 bits; below \<open>2\<^sup>-\<^sup>1\<^sup>0\<^sup>2\<^sup>2\<close> the spacing stays \<open>2\<^sup>-\<^sup>1\<^sup>0\<^sup>7\<^sup>4\<close>). The operations here never
  reach the largest double, so overflow does not occur.
\<close>

definition round_half_even :: "real \<Rightarrow> int" where
  "round_half_even q =
     (let f = \<lfloor>q\<rfloor>; d = q - of_int f
      in if d < 1 / 2 then f else if 1 / 2 < d then f + 1 else if even f then f else f + 1)"

definition to_double :: "real \<Rightarrow> real" where
  "to_double x =
     (if x = 0 then 0
      else let e = max (\<lfloor>log 2 \<bar>x\<bar>\<rfloor> - 52) (- 1074)
           in of_int (round_half_even (x / 2 powr of_int e)) * 2 powr of_int e)"

text \<open>The countdown effect: a one-second timer is set only while the count is positive;
  when it fires it stores \<open>timeRemaining - 1\<close>.\<close>

definition countdown :: "game_room \<Rightarrow> game_room" where
  "countdown s =
     (if timeRemaining s > 0 then s\<lparr>timeRemaining := to_double (timeRemaining s - 1)\<rparr> else s)"

text \<open>The remaining-time display, when it is rendered: \<open>Math.floor(timeRemaining / 60)\<close>
  and \<open>timeRemaining % 60\<close> (the remainder of a positive number is exact).\<close>

definition time_display :: "game_room \<Rightarrow> (int \<times> real) option" where
  "time_display s =
     (if timeRemaining s > 0
      then Some (\<lfloor>to_double (timeRemaining s / 60)\<rfloor>,
                 timeRemaining s - 60 * of_int \<lfloor>timeRemaining s / 60\<rfloor>)
      else None)"

text \<open>A count of whole seconds that a double holds exactly.\<close>

definition whole_seconds :: "real \<Rightarrow> bool" where
  "whole_seconds t = (t \<in> \<int> \<and> 0 \<le> t \<and> t \<le> 2 ^ 53)"

text \<open>
  A user event reaches its handler only when the element is rendered: the response box
  and its button in the state \<open>responding\<close> (the box takes at most \<open>maxLength\<close> code
  units, the button is disabled while the trimmed text is empty), the two response
  cards in \<open>voting\<close>, the new-round button in \<open>results\<close> with results present.
\<close>

fun on_ui :: "ui_event \<Rightarrow> game_room \<Rightarrow> game_room \<times> effect list" where
  "on_ui (change_response v) s =
     (if gameState s = ''responding'' \<and> length v \<le> maxLength
      then (s\<lparr>userResponse := v\<rparr>, []) else (s, []))"
| "on_ui click_submit_response s =
     (if gameState s = ''responding'' \<and> trim (userResponse s) \<noteq> []
      then submitResponse s else (s, []))"
| "on_ui click_left s =
     (if gameState s = ''voting'' \<and> selectedVote s = None then submitVote Left s else (s, []))"
| "on_ui click_right s =
     (if gameState s = ''voting'' \<and> selectedVote s = None then submitVote Right s else (s, []))"
| "on_ui click_play_another s =
     (if gameState s = ''results'' \<and> results s \<noteq> None then requestNewRound s else (s, []))"
| "on_ui timer_fired s = (countdown s, [])"

fun step :: "event \<Rightarrow> game_room \<Rightarrow> game_room \<times> effect list" where
  "step (Server e) s = receive e s"
| "step (UI e) s = on_ui e s"

text \<open>A run of the component: the final state and everything it did, in order.\<close>

fun run :: "game_room \<Rightarrow> event list \<Rightarrow> game_room \<times> effect list" where
  "run s [] = (s, [])"
| "run s (e # es) =
     (case step e s of (s', out) \<Rightarrow> (case run s' es of (s'', out') \<Rightarrow> (s'', out @ out')))"

text \<open>Observations on a run: which effects are votes, which events open a voting
  phase, and the timeout an event carries.\<close>

fun is_submit_vote :: "effect \<Rightarrow> bool" where
  "is_submit_vote (submit_vote r v) = True"
| "is_submit_vote e = False"

fun is_voting_phase :: "event \<Rightarrow> bool" where
  "is_voting_phase (Server (voting_phase l r t)) = True"
| "is_voting_phase e = False"

fun timeout_of :: "event \<Rightarrow> real option" where
  "timeout_of (Server (new_round p t)) = t"
| "timeout_of (Server (voting_phase l r t)) = t"
| "timeout_of e = None"

section \<open>The results display (ResultsDisplay.tsx)\<close>








subsection \<open>The display on a payload as it is received\<close>
















section \<open>The leaderboard page (Leaderboard.tsx)\<close>

record LeaderboardEntry =
  rank :: int
  username :: string
  deception_score :: real
  detection_score :: real
  overall_score :: real
  games_played :: int

record leaderboard_page =
  leaderboard :: "LeaderboardEntry list"
  period :: string
  roomType :: "string option"
  loading :: bool

definition init_leaderboard_page :: leaderboard_page where
  "init_leaderboard_page =
     \<lparr>leaderboard = [], period = ''all_time'', roomType = None, loading = True\<rparr>"

text \<open>The options of the two select boxes, and the value each one carries.\<close>

datatype period_option = Daily | Weekly | Monthly | All_Time

fun period_value :: "period_option \<Rightarrow> string" where
  "period_value Daily = ''daily''"
| "period_value Weekly = ''weekly''"
| "period_value Monthly = ''monthly''"
| "period_value All_Time = ''all_time''"

datatype room_option = All_Rooms | Poetry | Debate | Personal | Creative

fun room_value :: "room_option \<Rightarrow> string" where
  "room_value All_Rooms = []"
| "room_value Poetry = ''poetry''"
| "room_value Debate = ''debate''"
| "room_value Personal = ''personal''"
| "room_value Creative = ''creative''"

datatype leaderboard_event =
    select_period period_option
  | select_room_type room_option
  | fetch_response "LeaderboardEntry list option"
  | fetch_failed

text \<open>The query parameters of the request \<open>fetchLeaderboard\<close> sends:
  \<open>period\<close> always, \<open>room_type\<close> when \<open>roomType\<close> is truthy.\<close>

definition fetchLeaderboard :: "leaderboard_page \<Rightarrow> (string \<times> string) list" where
  "fetchLeaderboard s =
     [(''period'', period s)] @
     (case roomType s of None \<Rightarrow> []
      | Some t \<Rightarrow> if t = [] then [] else [(''room_type'', t)])"

text \<open>The state setters of the handlers; \<open>e.target.value || null\<close> turns the empty
  value of \<open>All Rooms\<close> into null.\<close>

fun leaderboard_update :: "leaderboard_event \<Rightarrow> leaderboard_page \<Rightarrow> leaderboard_page" where
  "leaderboard_update (select_period p) s = s\<lparr>period := period_value p\<rparr>"
| "leaderboard_update (select_room_type r) s =
     s\<lparr>roomType := (if room_value r = [] then None else Some (room_value r))\<rparr>"
| "leaderboard_update (fetch_response d) s =
     s\<lparr>leaderboard := (case d of None \<Rightarrow> [] | Some l \<Rightarrow> l), loading := False\<rparr>"
| "leaderboard_update fetch_failed s = s\<lparr>loading := False\<rparr>"

text \<open>The effect with dependencies \<open>[period, roomType]\<close>: a request goes out whenever
  one of the two has changed, and once at mount.\<close>

definition leaderboard_step ::
  "leaderboard_event \<Rightarrow> leaderboard_page \<Rightarrow> leaderboard_page \<times> (string \<times> string) list list" where
  "leaderboard_step e s =
     (let s' = leaderboard_update e s in
      if period s' \<noteq> period s \<or> roomType s' \<noteq> roomType s
      then (s'\<lparr>loading := True\<rparr>, [fetchLeaderboard s'])
      else (s', []))"

fun leaderboard_run ::
  "leaderboard_page \<Rightarrow> leaderboard_event list \<Rightarrow> leaderboard_page \<times> (string \<times> string) list list" where
  "leaderboard_run s [] = (s, [])"
| "leaderboard_run s (e # es) =
     (case leaderboard_step e s of (s', out) \<Rightarrow>
        (case leaderboard_run s' es of (s'', out') \<Rightarrow> (s'', out @ out')))"

text \<open>Everything the page requests in its life: the request at mount, then the run.\<close>

definition leaderboard_requests :: "leaderboard_event list \<Rightarrow> (string \<times> string) list list" where
  "leaderboard_requests es =
     fetchLeaderboard init_leaderboard_page # snd (leaderboard_run init_leaderboard_page es)"

text \<open>What the user has selected after a sequence of events: the last choice made in
  each box, the given one when no choice was made.\<close>

fun selected_room :: "room_option \<Rightarrow> leaderboard_event list \<Rightarrow> room_option" where
  "selected_room r [] = r"
| "selected_room r (select_room_type r' # es) = selected_room r' es"
| "selected_room r (e # es) = selected_room r es"

fun selected_period :: "period_option \<Rightarrow> leaderboard_event list \<Rightarrow> period_option" where
  "selected_period p [] = p"
| "selected_period p (select_period p' # es) = selected_period p' es"
| "selected_period p (e # es) = selected_period p es"

text \<open>The state of the page in terms of the user's selection: the value \<open>roomType\<close>
  holds for a selected option, and what holds of the state after any events.\<close>

definition roomType_of :: "room_option \<Rightarrow> string option" where
  "roomType_of r = (if room_value r = [] then None else Some (room_value r))"

definition lb_inv :: "leaderboard_page \<Rightarrow> period_option \<Rightarrow> room_option \<Rightarrow> bool" where
  "lb_inv s p r = (period s = period_value p \<and> roomType s = roomType_of r)"

section \<open>The database schema (backend/schema.sql)\<close>

text \<open>
  The three \<open>CREATE TABLE\<close> statements, as lists of column definitions, and what an
  \<open>INSERT\<close> into such a table stores or rejects.
\<close>

datatype sqltype = SERIAL | INTEGER | VARCHAR nat | TEXT | JSONB | TIMESTAMP

datatype sqldefault = NO_DEFAULT | DEFAULT_INT int | DEFAULT_STR string | DEFAULT_NOW

record column =
  col_name :: string
  col_type :: sqltype
  primary_key :: bool
  not_null :: bool
  unique :: bool
  col_default :: sqldefault

definition col :: "string \<Rightarrow> sqltype \<Rightarrow> column" where
  "col n t = \<lparr>col_name = n, col_type = t, primary_key = False, not_null = False,
              unique = False, col_default = NO_DEFAULT\<rparr>"


definition players :: "column list" where
  "players =
     [(col ''id'' SERIAL)\<lparr>primary_key := True\<rparr>,
      (col ''username'' (VARCHAR 50))\<lparr>unique := True\<rparr>,
      (col ''human_wins'' INTEGER)\<lparr>col_default := DEFAULT_INT 0\<rparr>,
      (col ''ai_detection_score'' INTEGER)\<lparr>col_default := DEFAULT_INT 0\<rparr>,
      (col ''games_played'' INTEGER)\<lparr>col_default := DEFAULT_INT 0\<rparr>]"

definition training_batches :: "column list" where
  "training_batches =
     [(col ''id'' SERIAL)\<lparr>primary_key := True\<rparr>,
      col ''misclassified_examples'' JSONB,
      col ''model_version'' (VARCHAR 20),
      col ''training_started_at'' TIMESTAMP,
      (col ''status'' (VARCHAR 20))\<lparr>col_default := DEFAULT_STR ''pending''\<rparr>]"

datatype sqlval = Null | IntV int | TextV string | JsonV json | TimeV nat

datatype sql_error =
    not_null_violation string
  | unique_violation string
  | string_data_right_truncation string
  | numeric_value_out_of_range string
  | datatype_mismatch string
  | undefined_column
  | duplicate_column

type_synonym row = "(string \<times> sqlval) list"

text \<open>What the statement cannot know: the current time, and the next value of the
  sequence behind a \<open>SERIAL\<close> column.\<close>

record insert_env =
  now :: nat
  nextval :: int

text \<open>The value a column receives: the one the statement gives, else the default
  (\<open>SERIAL\<close> means a default from the sequence), else null.\<close>

definition column_input :: "insert_env \<Rightarrow> row \<Rightarrow> column \<Rightarrow> sqlval" where
  "column_input env given c =
     (case map_of given (col_name c) of
        Some v \<Rightarrow> v
      | None \<Rightarrow>
         (case col_default c of
            DEFAULT_INT i \<Rightarrow> IntV i
          | DEFAULT_STR s \<Rightarrow> TextV s
          | DEFAULT_NOW \<Rightarrow> TimeV (now env)
          | NO_DEFAULT \<Rightarrow> if col_type c = SERIAL then IntV (nextval env) else Null))"

text \<open>A value must fit the column's type. A four-byte integer has its range; a
  \<open>VARCHAR(n)\<close> takes at most \<open>n\<close> characters, and drops excess characters that are
  all spaces.\<close>

definition in_int4 :: "int \<Rightarrow> bool" where
  "in_int4 i = (- 2147483648 \<le> i \<and> i \<le> 2147483647)"

fun coerce :: "sqltype \<Rightarrow> string \<Rightarrow> sqlval \<Rightarrow> sql_error + sqlval" where
  "coerce t n Null = Inr Null"
| "coerce SERIAL n (IntV i) = (if in_int4 i then Inr (IntV i) else Inl (numeric_value_out_of_range n))"
| "coerce INTEGER n (IntV i) = (if in_int4 i then Inr (IntV i) else Inl (numeric_value_out_of_range n))"
| "coerce (VARCHAR k) n (TextV s) =
     (if length s \<le> k then Inr (TextV s)
      else if list_all (\<lambda>c. c = CHR '' '') (drop k s) then Inr (TextV (take k s))
      else Inl (string_data_right_truncation n))"
| "coerce TEXT n (TextV s) = Inr (TextV s)"
| "coerce JSONB n (JsonV j) = Inr (JsonV j)"
| "coerce TIMESTAMP n (TimeV t) = Inr (TimeV t)"
| "coerce t n v = Inl (datatype_mismatch n)"

definition column_values :: "string \<Rightarrow> row list \<Rightarrow> sqlval list" where
  "column_values n rows = concat (map (\<lambda>r. case map_of r n of None \<Rightarrow> [] | Some v \<Rightarrow> [v]) rows)"

text \<open>One column of the new row: fit the type, then \<open>NOT NULL\<close> (which a primary key
  and \<open>SERIAL\<close> imply), then uniqueness (which a primary key implies; nulls never
  collide).\<close>

definition store_column :: "insert_env \<Rightarrow> row list \<Rightarrow> row \<Rightarrow> column \<Rightarrow> sql_error + sqlval" where
  "store_column env rows given c =
     (case coerce (col_type c) (col_name c) (column_input env given c) of
        Inl e \<Rightarrow> Inl e
      | Inr v \<Rightarrow>
          if v = Null \<and> (not_null c \<or> primary_key c \<or> col_type c = SERIAL)
          then Inl (not_null_violation (col_name c))
          else if (unique c \<or> primary_key c) \<and> v \<noteq> Null \<and> v \<in> set (column_values (col_name c) rows)
          then Inl (unique_violation (col_name c))
          else Inr v)"

fun build_row :: "insert_env \<Rightarrow> row list \<Rightarrow> row \<Rightarrow> column list \<Rightarrow> sql_error + row" where
  "build_row env rows given [] = Inr []"
| "build_row env rows given (c # cs) =
     (case store_column env rows given c of
        Inl e \<Rightarrow> Inl e
      | Inr v \<Rightarrow>
         (case build_row env rows given cs of
            Inl e \<Rightarrow> Inl e
          | Inr r \<Rightarrow> Inr ((col_name c, v) # r)))"

text \<open>\<open>INSERT INTO t (columns) VALUES (values)\<close>: the table with the new row, or the error.\<close>

definition insert_row :: "column list \<Rightarrow> insert_env \<Rightarrow> row list \<Rightarrow> row \<Rightarrow> sql_error + row list" where
  "insert_row t env rows given =
     (if \<not> distinct (map fst given) then Inl duplicate_column
      else if \<not> set (map fst given) \<subseteq> set (map col_name t) then Inl undefined_column
      else (case build_row env rows given t of
              Inl e \<Rightarrow> Inl e
            | Inr r \<Rightarrow> Inr (rows @ [r])))"

section \<open>The room state machine\<close>

text \<open>
  Modelled from the spec: the server's room state machine and its deadline timers
  (the backend, \<open>app.py\<close> and its modules, is not among the sources). The model
  follows sections 3, 4.1 and 4.2 of the specification: a room has its players in join
  order, a phase, a round counter that only grows, the players who have responded, the
  votes, and the tag of the armed timer; a timer is tagged with the round counter of
  the round that armed it.
\<close>

datatype phase = Lobby | Responding | Judging | Voting | Showing_Results

record room =
  room_players :: "string list"
  room_phase :: phase
  round_counter :: nat
  responded :: "(string \<times> string) list"
  votes :: "(string \<times> vote) list"
  armed_timer :: "nat option"

datatype room_event =
    player_joins string
  | player_leaves string
  | player_responds string string
  | judge_returns
  | judge_fails
  | player_votes_for string vote
  | new_round_requested
  | timer_fires nat

datatype broadcast =
    bc_player_joined nat
  | bc_new_round nat
  | bc_judging_started
  | bc_voting_phase nat
  | bc_round_results "(string \<times> vote) list"
  | bc_error

definition start_round :: "room \<Rightarrow> room \<times> broadcast list" where
  "start_round r =
     (r\<lparr>room_phase := Responding, round_counter := Suc (round_counter r), responded := [],
        votes := [], armed_timer := Some (Suc (round_counter r))\<rparr>, [bc_new_round 90])"

definition to_judging :: "room \<Rightarrow> room \<times> broadcast list" where
  "to_judging r = (r\<lparr>room_phase := Judging, armed_timer := None\<rparr>, [bc_judging_started])"

definition to_results :: "room \<Rightarrow> room \<times> broadcast list" where
  "to_results r =
     (r\<lparr>room_phase := Showing_Results, armed_timer := None\<rparr>, [bc_round_results (votes r)])"

definition abort_round :: "room \<Rightarrow> room \<times> broadcast list" where
  "abort_round r = (r\<lparr>room_phase := Lobby, armed_timer := None\<rparr>, [bc_error])"

fun room_step :: "room_event \<Rightarrow> room \<Rightarrow> room \<times> broadcast list" where
  "room_step (player_joins p) r =
     (if p \<in> set (room_players r) then (r, [])
      else let r' = r\<lparr>room_players := room_players r @ [p]\<rparr>;
               joined = bc_player_joined (length (room_players r'))
           in if room_phase r = Lobby \<and> 2 \<le> length (room_players r')
              then (case start_round r' of (r'', out) \<Rightarrow> (r'', joined # out))
              else (r', [joined]))"
| "room_step (player_leaves p) r = (r\<lparr>room_players := removeAll p (room_players r)\<rparr>, [])"
| "room_step (player_responds p t) r =
     (if room_phase r = Responding \<and> p \<in> set (room_players r) \<and> p \<notin> fst ` set (responded r)
      then let r' = r\<lparr>responded := responded r @ [(p, t)]\<rparr>
           in if set (room_players r') \<subseteq> fst ` set (responded r') then to_judging r' else (r', [])
      else (r, []))"
| "room_step judge_returns r =
     (if room_phase r = Judging
      then (r\<lparr>room_phase := Voting, armed_timer := Some (round_counter r)\<rparr>, [bc_voting_phase 30])
      else (r, []))"
| "room_step judge_fails r = (if room_phase r = Judging then abort_round r else (r, []))"
| "room_step (player_votes_for p v) r =
     (if room_phase r = Voting \<and> p \<in> set (room_players r) \<and> p \<notin> fst ` set (votes r)
      then let r' = r\<lparr>votes := votes r @ [(p, v)]\<rparr>
           in if set (room_players r') \<subseteq> fst ` set (votes r') then to_results r' else (r', [])
      else (r, []))"
| "room_step new_round_requested r =
     (if room_phase r = Showing_Results then start_round r else (r, []))"
| "room_step (timer_fires tag) r =
     (if tag \<noteq> round_counter r then (r, [])
      else (case room_phase r of
              Responding \<Rightarrow> if responded r = [] then abort_round r else to_judging r
            | Voting \<Rightarrow> to_results r
            | _ \<Rightarrow> (r, [])))"

fun room_run :: "room \<Rightarrow> room_event list \<Rightarrow> room \<times> broadcast list" where
  "room_run r [] = (r, [])"
| "room_run r (e # es) =
     (case room_step e r of (r', out) \<Rightarrow>
        (case room_run r' es of (r'', out') \<Rightarrow> (r'', out @ out')))"

definition new_room :: room where
  "new_room = \<lparr>room_players = [], room_phase = Lobby, round_counter = 0, responded = [],
               votes = [], armed_timer = None\<rparr>"

section \<open>Properties of the game room component\<close>

lemma round_half_even_int: "round_half_even (of_int k) = k"
  by (simp add: round_half_even_def)

lemma to_double_scaled:
  assumes "x \<noteq> 0" and "\<lfloor>log 2 \<bar>x\<bar>\<rfloor> - 52 = - int j" and "j \<le> 1074" and "x * 2 ^ j = of_int m"
  shows "to_double x = x"
proof -
  have e: "max (\<lfloor>log 2 \<bar>x\<bar>\<rfloor> - 52) (- 1074) = - int j" using assms(2,3) by simp
  have p: "2 powr of_int (- int j) = 1 / (2::real) ^ j"
    by (simp add: powr_minus powr_realpow divide_inverse)
  have "x / (1 / 2 ^ j) = of_int m" using assms(4) by simp
  then have "of_int (round_half_even (x / (1 / 2 ^ j))) * (1 / 2 ^ j) = of_int m * (1 / (2::real) ^ j)"
    by (simp only: round_half_even_int)
  also have "\<dots> = x" using assms(4) [symmetric] by simp
  finally show ?thesis using assms(1) unfolding to_double_def e Let_def p by simp
qed

lemma to_double_whole:
  assumes "x \<in> \<int>" and "0 \<le> x" and "x < 2 ^ 53"
  shows "to_double x = x"
proof (cases "x = 0")
  case True
  then show ?thesis by (simp add: to_double_def)
next
  case False
  from assms(1) obtain k where k: "x = of_int k" by (auto elim: Ints_cases)
  with False assms(2) have "1 \<le> k" by simp
  then have x1: "1 \<le> x" using k by simp
  then have l0: "0 \<le> log 2 x" by simp
  have "log 2 x < log 2 (2 ^ 53)" using assms(3) x1 by simp
  also have "\<dots> = 53" using log_pow_cancel [of 2 53] by simp
  finally have l1: "log 2 x < 53" .
  have f0: "0 \<le> \<lfloor>log 2 x\<rfloor>" using l0 by simp
  have f1: "\<lfloor>log 2 x\<rfloor> \<le> 52" using l1 by (simp add: floor_le_iff)
  define j where "j = nat (52 - \<lfloor>log 2 x\<rfloor>)"
  have a: "\<lfloor>log 2 \<bar>x\<bar>\<rfloor> - 52 = - int j" using f0 f1 x1 by (simp add: j_def)
  have b: "j \<le> 1074" using f0 unfolding j_def by linarith
  have c: "x * 2 ^ j = of_int (k * 2 ^ j)" by (simp add: k)
  from to_double_scaled [OF False a b c] show ?thesis .
qed

lemma to_double_minus_half: "to_double (- (1 / 2)) = - (1 / 2)"
proof -
  have "log 2 (1 / 2) = real_of_int (- 1)" by (simp add: log_divide)
  then have "\<lfloor>log 2 (1 / 2 :: real)\<rfloor> = - 1" by (simp only: floor_of_int)
  then have a: "\<lfloor>log 2 \<bar>- (1 / 2 :: real)\<bar>\<rfloor> - 52 = - int 53" by simp
  have c: "- (1 / 2 :: real) * 2 ^ 53 = of_int (- (2 ^ 52))" by simp
  show ?thesis by (rule to_double_scaled [OF _ a _ c]) simp_all
qed

lemma countdown_whole:
  assumes "whole_seconds (timeRemaining s)"
  shows "whole_seconds (timeRemaining (countdown s))
       \<and> (0 < timeRemaining s \<longrightarrow> countdown s = s\<lparr>timeRemaining := timeRemaining s - 1\<rparr>)"
proof (cases "0 < timeRemaining s")
  case False
  with assms show ?thesis by (simp add: countdown_def)
next
  case True
  from assms obtain k where k: "timeRemaining s = of_int k"
    by (auto simp: whole_seconds_def elim: Ints_cases)
  with True have "1 \<le> k" by simp
  then have a: "timeRemaining s - 1 \<in> \<int>" and b: "0 \<le> timeRemaining s - 1"
    by (simp_all add: k)
  have c: "timeRemaining s - 1 < 2 ^ 53" using assms by (simp add: whole_seconds_def)
  have "to_double (timeRemaining s - 1) = timeRemaining s - 1"
    by (rule to_double_whole [OF a b c])
  with True a b c show ?thesis by (simp add: countdown_def whole_seconds_def)
qed

lemma countdown_iter_whole:
  "whole_seconds (timeRemaining s) \<Longrightarrow> whole_seconds (timeRemaining ((countdown ^^ n) s))"
  by (induction n) (simp_all add: countdown_whole)

lemma countdown_time_display:
  "(timeRemaining s \<le> 0 \<longrightarrow> countdown s = s)
   \<and> (time_display s \<noteq> None \<longleftrightarrow> 0 < timeRemaining s)
   \<and> step (UI timer_fired) s = (countdown s, [])"
  by (simp add: countdown_def time_display_def)

lemma whole_seconds_timeout_or:
  "(\<And>x. t = Some x \<Longrightarrow> whole_seconds x) \<Longrightarrow> whole_seconds d \<Longrightarrow> whole_seconds (timeout_or t d)"
  by (simp add: timeout_or_def split: option.splits)

lemma step_timeRemaining_whole:
  assumes "whole_seconds (timeRemaining s)" and "\<And>t. timeout_of e = Some t \<Longrightarrow> whole_seconds t"
  shows "whole_seconds (timeRemaining (fst (step e s)))"
proof (cases e)
  case (Server x)
  have "whole_seconds 90" and "whole_seconds 30" by (simp_all add: whole_seconds_def)
  with Server show ?thesis using assms
    by (cases x) (auto simp: receive_def intro!: whole_seconds_timeout_or)
next
  case (UI x)
  then show ?thesis using assms countdown_whole [OF assms(1)]
    by (cases x) (auto simp: submitResponse_def submitVote_def requestNewRound_def)
qed

lemma fst_run_Cons: "fst (run s (e # es)) = fst (run (fst (step e s)) es)"
  by (simp split: prod.splits)

lemma snd_run_Cons: "snd (run s (e # es)) = snd (step e s) @ snd (run (fst (step e s)) es)"
  by (simp split: prod.splits)

lemma run_timeRemaining_whole:
  "whole_seconds (timeRemaining s) \<Longrightarrow> (\<forall>e\<in>set es. \<forall>t. timeout_of e = Some t \<longrightarrow> whole_seconds t)
   \<Longrightarrow> whole_seconds (timeRemaining (fst (run s es)))"
proof (induction es arbitrary: s)
  case Nil
  then show ?case by simp
next
  case (Cons e es)
  have "whole_seconds (timeRemaining (fst (step e s)))"
    using Cons.prems by (intro step_timeRemaining_whole) auto
  then have "whole_seconds (timeRemaining (fst (run (fst (step e s)) es)))"
    using Cons.prems by (intro Cons.IH) auto
  then show ?case by (simp only: fst_run_Cons)
qed

lemma step_keeps_vote:
  assumes "selectedVote s = Some v" and "\<not> is_voting_phase e"
  shows "selectedVote (fst (step e s)) = Some v \<and> filter is_submit_vote (snd (step e s)) = []"
proof (cases e)
  case (Server x)
  then show ?thesis using assms
    by (cases x) (auto simp: receive_def)
next
  case (UI x)
  then show ?thesis using assms
    by (cases x) (auto simp: countdown_def submitResponse_def requestNewRound_def)
qed

lemma run_keeps_vote:
  "selectedVote s = Some v \<Longrightarrow> \<forall>e\<in>set es. \<not> is_voting_phase e \<Longrightarrow>
   selectedVote (fst (run s es)) = Some v \<and> filter is_submit_vote (snd (run s es)) = []"
proof (induction es arbitrary: s)
  case Nil
  then show ?case by simp
next
  case (Cons e es)
  have a: "selectedVote (fst (step e s)) = Some v \<and> filter is_submit_vote (snd (step e s)) = []"
    using Cons.prems by (intro step_keeps_vote) auto
  then have "selectedVote (fst (run (fst (step e s)) es)) = Some v
      \<and> filter is_submit_vote (snd (run (fst (step e s)) es)) = []"
    using Cons.prems by (intro Cons.IH) auto
  with a show ?case by (simp only: fst_run_Cons snd_run_Cons filter_append) simp
qed

lemma step_first_vote:
  assumes "selectedVote s = None"
  shows "filter is_submit_vote (snd (step e s)) = []
         \<or> (\<exists>v. filter is_submit_vote (snd (step e s)) = [submit_vote (roomId s) v]
                 \<and> selectedVote (fst (step e s)) = Some v)"
proof (cases e)
  case (Server x)
  then show ?thesis
    by (cases x) (auto simp: receive_def)
next
  case (UI x)
  then show ?thesis using assms
    by (cases x) (auto simp: countdown_def submitResponse_def requestNewRound_def submitVote_def)
qed

lemma run_at_most_one_vote:
  "\<forall>e\<in>set es. \<not> is_voting_phase e \<Longrightarrow> length (filter is_submit_vote (snd (run s es))) \<le> 1"
proof (induction es arbitrary: s)
  case Nil
  then show ?case by simp
next
  case (Cons e es)
  have rest: "\<forall>e\<in>set es. \<not> is_voting_phase e" and e: "\<not> is_voting_phase e"
    using Cons.prems by auto
  show ?case
  proof (cases "selectedVote s")
    case (Some v)
    have "filter is_submit_vote (snd (run s (e # es))) = []"
      using run_keeps_vote [OF Some Cons.prems] by simp
    then show ?thesis by simp
  next
    case None
    from step_first_vote [OF None, of e] show ?thesis
    proof
      assume "filter is_submit_vote (snd (step e s)) = []"
      then show ?thesis using Cons.IH [OF rest, of "fst (step e s)"]
        by (simp only: snd_run_Cons filter_append) simp
    next
      assume "\<exists>v. filter is_submit_vote (snd (step e s)) = [submit_vote (roomId s) v]
                 \<and> selectedVote (fst (step e s)) = Some v"
      then obtain v where v: "filter is_submit_vote (snd (step e s)) = [submit_vote (roomId s) v]"
        and sel: "selectedVote (fst (step e s)) = Some v" by blast
      have "filter is_submit_vote (snd (run (fst (step e s)) es)) = []"
        using run_keeps_vote [OF sel rest] by simp
      with v show ?thesis by (simp only: snd_run_Cons filter_append) simp
    qed
  qed
qed

lemma cleared_only_by_voting_phase:
  "selectedVote s = Some v \<Longrightarrow> selectedVote (fst (step e s)) \<noteq> Some v \<Longrightarrow> is_voting_phase e"
  using step_keeps_vote by blast

lemma click_after_vote:
  "selectedVote s \<noteq> None \<Longrightarrow> step (UI click_left) s = (s, []) \<and> step (UI click_right) s = (s, [])"
  by auto

lemma dropWhile_all: "\<forall>c\<in>set r. P c \<Longrightarrow> dropWhile P r = []"
  by (induction r) simp_all

lemma trim_nonempty: "trim r \<noteq> [] \<Longrightarrow> \<exists>c\<in>set r. \<not> isWhiteSpace c"
proof (rule ccontr)
  assume t: "trim r \<noteq> []" and "\<not> (\<exists>c\<in>set r. \<not> isWhiteSpace c)"
  then have "\<forall>c\<in>set r. isWhiteSpace c" by blast
  then have d: "dropWhile isWhiteSpace r = []" by (rule dropWhile_all)
  have "trim r = []" unfolding trim_def d by simp
  with t show False by contradiction
qed

lemma step_response_ok:
  assumes "length (userResponse s) \<le> maxLength"
  shows "length (userResponse (fst (step e s))) \<le> maxLength
    \<and> (\<forall>rid r. submit_response rid r \<in> set (snd (step e s)) \<longrightarrow>
           r = userResponse s \<and> rid = roomId s \<and> socket s \<and> trim r \<noteq> [])"
proof (cases e)
  case (Server x)
  then show ?thesis using assms
    by (cases x) (auto simp: receive_def)
next
  case (UI x)
  then show ?thesis using assms
    by (cases x) (auto simp: countdown_def submitResponse_def requestNewRound_def submitVote_def)
qed

lemma run_response_ok:
  "length (userResponse s) \<le> maxLength \<Longrightarrow> submit_response rid r \<in> set (snd (run s es))
   \<Longrightarrow> length r \<le> maxLength \<and> trim r \<noteq> []"
proof (induction es arbitrary: s)
  case Nil
  then show ?case by simp
next
  case (Cons e es)
  note ok = step_response_ok [OF Cons.prems(1), of e]
  from Cons.prems(2) have "submit_response rid r \<in> set (snd (step e s))
      \<or> submit_response rid r \<in> set (snd (run (fst (step e s)) es))"
    by (simp only: snd_run_Cons set_append Un_iff)
  then show ?case
  proof
    assume "submit_response rid r \<in> set (snd (step e s))"
    with ok have "r = userResponse s" and "trim r \<noteq> []" by blast+
    with Cons.prems(1) show ?thesis by simp
  next
    assume "submit_response rid r \<in> set (snd (run (fst (step e s)) es))"
    with ok Cons.IH show ?thesis by blast
  qed
qed




text \<open>
  Claim C1. In every round each player casts at most one vote. Once a vote is selected,
  a click on either response card emits nothing and changes nothing; between two
  \<open>voting_phase\<close> events a run of the component, from any state, emits at most one
  \<open>submit_vote\<close>; a selected vote stays as it is, and no further vote is emitted, until
  the next \<open>voting_phase\<close> event; and only a \<open>voting_phase\<close> event clears the selection.
\<close>

theorem one_vote_per_round:
  "(selectedVote s \<noteq> None \<longrightarrow>
      step (UI click_left) s = (s, []) \<and> step (UI click_right) s = (s, []))
   \<and> ((\<forall>e\<in>set es. \<not> is_voting_phase e) \<longrightarrow>
      length (filter is_submit_vote (snd (run s es))) \<le> 1)
   \<and> ((\<forall>e\<in>set es. \<not> is_voting_phase e) \<and> selectedVote s = Some v \<longrightarrow>
      selectedVote (fst (run s es)) = Some v \<and> filter is_submit_vote (snd (run s es)) = [])
   \<and> (selectedVote s = Some v \<and> selectedVote (fst (step e s)) \<noteq> Some v \<longrightarrow>
      is_voting_phase e)"
  using click_after_vote [of s] run_at_most_one_vote [of es s] run_keeps_vote [of s v es]
    cleared_only_by_voting_phase [of s v e]
  by blast

theorem one_vote_per_round_witness:
  "selectedVote (fst (run (init_game_room True (Some ''r1''))
       [Server (voting_phase ''a'' ''b'' None), UI click_left])) = Some Left
   \<and> \<not> is_voting_phase (UI click_right) \<and> \<not> is_voting_phase (UI click_left)
   \<and> run (fst (run (init_game_room True (Some ''r1''))
       [Server (voting_phase ''a'' ''b'' None), UI click_left])) [UI click_right, UI click_left]
     = (fst (run (init_game_room True (Some ''r1''))
       [Server (voting_phase ''a'' ''b'' None), UI click_left]), [])
   \<and> selectedVote (fst (step (Server (voting_phase ''c'' ''d'' None))
       (fst (run (init_game_room True (Some ''r1''))
          [Server (voting_phase ''a'' ''b'' None), UI click_left])))) = None
   \<and> is_voting_phase (Server (voting_phase ''c'' ''d'' None))
   \<and> length (filter is_submit_vote (snd (run (fst (step (Server (voting_phase ''a'' ''b'' None))
       (init_game_room True (Some ''r1'')))) [UI click_left, UI click_right, UI click_left]))) \<le> 1
   \<and> snd (run (fst (step (Server (voting_phase ''a'' ''b'' None))
       (init_game_room True (Some ''r1'')))) [UI click_left, UI click_right, UI click_left])
     = [submit_vote (Some ''r1'') Left]"
  using one_vote_per_round [of "fst (step (Server (voting_phase ''a'' ''b'' None))
       (init_game_room True (Some ''r1'')))" "[UI click_left, UI click_right, UI click_left]"]
    one_vote_per_round [of "fst (run (init_game_room True (Some ''r1''))
       [Server (voting_phase ''a'' ''b'' None), UI click_left])" "[UI click_right, UI click_left]"
       Left "Server (voting_phase ''c'' ''d'' None)"]
  by (simp add: init_game_room_def receive_def has_roomId_def submitVote_def timeout_or_def)

text \<open>
  A \<open>new_round\<close> event whose timeout is 0: the countdown is set to 90, not to the
  payload's timeout.
\<close>

theorem new_round_zero_timeout:
  "timeRemaining (fst (step (Server (new_round ''p'' (Some 0))) (init_game_room True (Some ''r1'')))) = 90
   \<and> timeRemaining (fst (step (Server (new_round ''p'' (Some 0))) (init_game_room True (Some ''r1'')))) \<noteq> 0"
  by (simp add: init_game_room_def receive_def has_roomId_def timeout_or_def)

text \<open>
  Claim C3, as the code has it. On \<open>new_round\<close> the countdown is set to the payload's
  timeout when that is present and not 0, and to 90 when it is absent or 0; on
  \<open>voting_phase\<close> likewise, with 30; \<open>judging_started\<close> leaves the countdown as it is.
\<close>

theorem timeout_defaults:
  assumes "socket s" and "has_roomId s"
  shows "timeRemaining (fst (step (Server (new_round p t)) s))
           = (case t of None \<Rightarrow> 90 | Some n \<Rightarrow> if n = 0 then 90 else n)
       \<and> timeRemaining (fst (step (Server (voting_phase l r u)) s))
           = (case u of None \<Rightarrow> 30 | Some n \<Rightarrow> if n = 0 then 30 else n)
       \<and> timeRemaining (fst (step (Server judging_started) s)) = timeRemaining s"
  using assms by (simp add: receive_def timeout_or_def)

theorem timeout_defaults_witness:
  "socket (init_game_room True (Some ''r1'')) \<and> has_roomId (init_game_room True (Some ''r1''))
   \<and> timeRemaining (fst (step (Server (new_round ''p'' (Some 45))) (init_game_room True (Some ''r1'')))) = 45
   \<and> timeRemaining (fst (step (Server (voting_phase ''a'' ''b'' None)) (init_game_room True (Some ''r1'')))) = 30
   \<and> timeRemaining (fst (step (Server judging_started) (init_game_room True (Some ''r1'')))) = 0"
proof -
  have a: "socket (init_game_room True (Some ''r1''))"
    and b: "has_roomId (init_game_room True (Some ''r1''))"
    by (simp_all add: init_game_room_def has_roomId_def)
  show ?thesis
    using a b timeout_defaults [OF a b, of "''p''" "Some 45" "''a''" "''b''" None]
    by (simp add: init_game_room_def)
qed

text \<open>
  Claim C9. Every \<open>submit_response\<close> the component emits, in any run from its initial
  state, carries a response whose trimmed text is not empty, so it has a code unit that
  is not white space, and that has at most 500 code units.
\<close>

theorem submitted_response_bounds:
  assumes "submit_response rid r \<in> set (snd (run (init_game_room sock room) es))"
  shows "trim r \<noteq> [] \<and> (\<exists>c\<in>set r. \<not> isWhiteSpace c) \<and> length r \<le> 500"
proof -
  have "length (userResponse (init_game_room sock room)) \<le> maxLength"
    by (simp add: init_game_room_def)
  from run_response_ok [OF this assms] trim_nonempty [of r] show ?thesis
    by (simp add: maxLength_def)
qed

theorem submitted_response_bounds_witness:
  "submit_response (Some ''r1'') [0x20, 0x68, 0x69] \<in> set (snd (run (init_game_room True (Some ''r1''))
      [Server (new_round ''p'' None), UI (change_response [0x20, 0x68, 0x69]), UI click_submit_response]))
   \<and> trim [0x20, 0x68, 0x69] \<noteq> [] \<and> \<not> isWhiteSpace 0x68 \<and> length [0x20, 0x68, 0x69 :: 16 word] \<le> 500"
proof -
  have a: "submit_response (Some ''r1'') [0x20, 0x68, 0x69] \<in> set (snd (run (init_game_room True (Some ''r1''))
      [Server (new_round ''p'' None), UI (change_response [0x20, 0x68, 0x69]), UI click_submit_response]))"
    by (simp add: init_game_room_def receive_def has_roomId_def timeout_or_def maxLength_def
        submitResponse_def trim_def isWhiteSpace_def)
  show ?thesis
    using a submitted_response_bounds [OF a]
    by (simp add: isWhiteSpace_def)
qed

text \<open>
  A \<open>new_round\<close> event whose timeout is \<open>-5\<close>: the countdown is \<open>-5\<close>. One whose timeout is
  half a second: the count is positive, so the timer fires, and the countdown is then
  minus one half.
\<close>

theorem countdown_negative:
  "timeRemaining (fst (step (Server (new_round ''p'' (Some (- 5)))) (init_game_room True (Some ''r1'')))) = - 5
   \<and> timeRemaining (fst (step (Server (new_round ''p'' (Some (- 5)))) (init_game_room True (Some ''r1'')))) < 0
   \<and> timeRemaining (fst (run (init_game_room True (Some ''r1''))
        [Server (new_round ''p'' (Some (1 / 2))), UI timer_fired])) = - (1 / 2)"
  by (simp add: init_game_room_def receive_def has_roomId_def timeout_or_def countdown_def
      to_double_minus_half)

text \<open>
  Claim C10, as the code has it. While the count is a whole number of seconds from 0 to
  \<open>2\<^sup>5\<^sup>3\<close> it never becomes negative: every number of ticks leaves it such a number; a tick
  takes exactly one off a positive count and changes nothing else. At zero or below a
  tick changes nothing, and the remaining-time display is rendered exactly while the
  count is positive. In a run from the initial state the count is such a whole number as
  long as every timeout the server sends is one; the client stores the server's timeout
  as it is.
\<close>

theorem countdown_never_negative:
  "(whole_seconds (timeRemaining s) \<longrightarrow>
      (\<forall>n. 0 \<le> timeRemaining ((countdown ^^ n) s) \<and> whole_seconds (timeRemaining ((countdown ^^ n) s))))
   \<and> (whole_seconds (timeRemaining s) \<and> 0 < timeRemaining s \<longrightarrow>
        countdown s = s\<lparr>timeRemaining := timeRemaining s - 1\<rparr>)
   \<and> (timeRemaining s \<le> 0 \<longrightarrow> countdown s = s)
   \<and> (time_display s \<noteq> None \<longleftrightarrow> 0 < timeRemaining s)
   \<and> step (UI timer_fired) s = (countdown s, [])
   \<and> ((\<forall>e\<in>set es. \<forall>t. timeout_of e = Some t \<longrightarrow> whole_seconds t) \<longrightarrow>
        0 \<le> timeRemaining (fst (run (init_game_room sock rid) es))
        \<and> whole_seconds (timeRemaining (fst (run (init_game_room sock rid) es))))"
proof -
  have i: "whole_seconds (timeRemaining (init_game_room sock rid))"
    by (simp add: init_game_room_def whole_seconds_def)
  have w: "\<And>t. whole_seconds t \<Longrightarrow> 0 \<le> t" by (simp add: whole_seconds_def)
  from run_timeRemaining_whole [OF i, of es] countdown_time_display [of s]
    countdown_whole [of s] countdown_iter_whole [of s] w
  show ?thesis by blast
qed

theorem countdown_never_negative_witness:
  "whole_seconds (timeRemaining (fst (run (init_game_room True (Some ''r1'')) [Server (new_round ''p'' (Some 2))])))
   \<and> 0 < timeRemaining (fst (run (init_game_room True (Some ''r1'')) [Server (new_round ''p'' (Some 2))]))
   \<and> 0 \<le> timeRemaining ((countdown ^^ 5) (fst (run (init_game_room True (Some ''r1'')) [Server (new_round ''p'' (Some 2))])))
   \<and> timeRemaining (countdown (fst (run (init_game_room True (Some ''r1'')) [Server (new_round ''p'' (Some 2))]))) = 1
   \<and> timeRemaining (init_game_room True (Some ''r1'')) \<le> 0
   \<and> countdown (init_game_room True (Some ''r1'')) = init_game_room True (Some ''r1'')
   \<and> time_display (fst (run (init_game_room True (Some ''r1'')) [Server (new_round ''p'' (Some 2))])) \<noteq> None
   \<and> time_display (init_game_room True (Some ''r1'')) = None
   \<and> timeout_of (Server (new_round ''p'' (Some 2))) = Some 2 \<and> whole_seconds 2
   \<and> 0 \<le> timeRemaining (fst (run (init_game_room True (Some ''r1''))
        [Server (new_round ''p'' (Some 2)), UI timer_fired, UI timer_fired, UI timer_fired]))"
proof -
  let ?s = "fst (run (init_game_room True (Some ''r1'')) [Server (new_round ''p'' (Some 2))])"
  let ?i = "init_game_room True (Some ''r1'')"
  let ?es = "[Server (new_round ''p'' (Some 2)), UI timer_fired, UI timer_fired, UI timer_fired]"
  note a = countdown_never_negative [of ?s ?es True "Some ''r1''"]
  note b = countdown_never_negative [of ?i "[]" True "Some ''r1''"]
  have t: "timeRemaining ?s = 2"
    by (simp add: init_game_room_def receive_def has_roomId_def timeout_or_def)
  have w: "whole_seconds (timeRemaining ?s)" and p: "0 < timeRemaining ?s"
    and w2: "whole_seconds 2"
    unfolding t by (simp_all add: whole_seconds_def)
  have z: "timeRemaining ?i \<le> 0" by (simp add: init_game_room_def)
  have h: "\<forall>e\<in>set ?es. \<forall>t. timeout_of e = Some t \<longrightarrow> whole_seconds t"
    using w2 by simp
  from a w have "0 \<le> timeRemaining ((countdown ^^ 5) ?s)" by blast
  moreover from a w p have "countdown ?s = ?s\<lparr>timeRemaining := timeRemaining ?s - 1\<rparr>" by blast
  then have "timeRemaining (countdown ?s) = 1" unfolding t by simp
  moreover from b z have "countdown ?i = ?i" by blast
  moreover from a p have "time_display ?s \<noteq> None" by blast
  moreover from b z have "\<not> time_display ?i \<noteq> None" by linarith
  then have "time_display ?i = None" by blast
  moreover from a h have "0 \<le> timeRemaining (fst (run ?i ?es))" by blast
  ultimately show ?thesis using w p z w2 by simp
qed


section \<open>Properties of the results display\<close>










section \<open>Properties of the leaderboard page\<close>

lemma selected_room_append:
  "selected_room r (es @ es') = selected_room (selected_room r es) es'"
proof (induction es arbitrary: r)
  case Nil
  then show ?case by simp
next
  case (Cons e es)
  then show ?case by (cases e) simp_all
qed

lemma selected_period_append:
  "selected_period p (es @ es') = selected_period (selected_period p es) es'"
proof (induction es arbitrary: p)
  case Nil
  then show ?case by simp
next
  case (Cons e es)
  then show ?case by (cases e) simp_all
qed

lemma period_value_inj: "period_value p = period_value p' \<longleftrightarrow> p = p'"
  by (cases p; cases p') simp_all

lemma roomType_of_inj: "roomType_of r = roomType_of r' \<longleftrightarrow> r = r'"
  by (cases r; cases r') (simp_all add: roomType_of_def)

lemma fetchLeaderboard_selection:
  assumes "lb_inv s p r"
  shows "fetchLeaderboard s
     = (''period'', period_value p) # (if r = All_Rooms then [] else [(''room_type'', room_value r)])"
  using assms by (cases r) (simp_all add: lb_inv_def fetchLeaderboard_def roomType_of_def)

lemma lb_step_inv:
  assumes "lb_inv s p r"
  shows "lb_inv (fst (leaderboard_step e s)) (selected_period p [e]) (selected_room r [e])"
  using assms by (cases e) (simp_all add: lb_inv_def leaderboard_step_def Let_def roomType_of_def)

lemma lb_step_requests:
  assumes "lb_inv s p r"
  shows "snd (leaderboard_step e s)
     = (if selected_period p [e] = p \<and> selected_room r [e] = r then []
        else [(''period'', period_value (selected_period p [e])) #
                (if selected_room r [e] = All_Rooms then []
                 else [(''room_type'', room_value (selected_room r [e]))])])"
proof -
  let ?s' = "leaderboard_update e s"
  have i: "lb_inv ?s' (selected_period p [e]) (selected_room r [e])"
    using assms by (cases e) (simp_all add: lb_inv_def roomType_of_def)
  have c: "(period ?s' \<noteq> period s \<or> roomType ?s' \<noteq> roomType s)
      \<longleftrightarrow> \<not> (selected_period p [e] = p \<and> selected_room r [e] = r)"
    using assms i by (simp add: lb_inv_def period_value_inj roomType_of_inj)
  show ?thesis
    unfolding leaderboard_step_def Let_def using c fetchLeaderboard_selection [OF i]
    by simp
qed

lemma fst_lb_run_Cons:
  "fst (leaderboard_run s (e # es)) = fst (leaderboard_run (fst (leaderboard_step e s)) es)"
  by (simp split: prod.splits)

lemma snd_lb_run_Cons:
  "snd (leaderboard_run s (e # es))
     = snd (leaderboard_step e s) @ snd (leaderboard_run (fst (leaderboard_step e s)) es)"
  by (simp split: prod.splits)

lemma fst_lb_run_append:
  "fst (leaderboard_run s (es @ es')) = fst (leaderboard_run (fst (leaderboard_run s es)) es')"
proof (induction es arbitrary: s)
  case Nil
  then show ?case by simp
next
  case (Cons e es)
  show ?case unfolding append_Cons fst_lb_run_Cons by (rule Cons.IH)
qed

lemma snd_lb_run_append:
  "snd (leaderboard_run s (es @ es'))
     = snd (leaderboard_run s es) @ snd (leaderboard_run (fst (leaderboard_run s es)) es')"
proof (induction es arbitrary: s)
  case Nil
  then show ?case by simp
next
  case (Cons e es)
  show ?case unfolding append_Cons fst_lb_run_Cons snd_lb_run_Cons Cons.IH by simp
qed

lemma lb_run_inv:
  "lb_inv s p r \<Longrightarrow> lb_inv (fst (leaderboard_run s es)) (selected_period p es) (selected_room r es)"
proof (induction es arbitrary: s p r)
  case Nil
  then show ?case by simp
next
  case (Cons e es)
  from Cons.IH [OF lb_step_inv [OF Cons.prems, of e]] show ?case
    unfolding fst_lb_run_Cons
    using selected_period_append [of p "[e]" es] selected_room_append [of r "[e]" es] by simp
qed

lemma lb_inv_init: "lb_inv init_leaderboard_page All_Time All_Rooms"
  by (simp add: lb_inv_def init_leaderboard_page_def roomType_of_def)

lemma leaderboard_requests_snoc:
  "leaderboard_requests (es @ [e]) = leaderboard_requests es @
     (if selected_period All_Time (es @ [e]) = selected_period All_Time es
         \<and> selected_room All_Rooms (es @ [e]) = selected_room All_Rooms es
      then []
      else [(''period'', period_value (selected_period All_Time (es @ [e]))) #
              (if selected_room All_Rooms (es @ [e]) = All_Rooms then []
               else [(''room_type'', room_value (selected_room All_Rooms (es @ [e])))])])"
proof -
  let ?s = "fst (leaderboard_run init_leaderboard_page es)"
  have "snd (leaderboard_run ?s [e]) = snd (leaderboard_step e ?s)"
    by (simp split: prod.splits)
  then show ?thesis
    unfolding leaderboard_requests_def snd_lb_run_append
      selected_period_append [of All_Time es "[e]"] selected_room_append [of All_Rooms es "[e]"]
    using lb_step_requests [OF lb_run_inv [OF lb_inv_init, of es], of e]
    by simp
qed

lemma leaderboard_requests_shape:
  "q \<in> set (leaderboard_requests es) \<Longrightarrow>
     \<exists>n\<le>length es. q = (''period'', period_value (selected_period All_Time (take n es))) #
         (if selected_room All_Rooms (take n es) = All_Rooms then []
          else [(''room_type'', room_value (selected_room All_Rooms (take n es)))])"
proof (induction es rule: rev_induct)
  case Nil
  then show ?case
    by (simp add: leaderboard_requests_def fetchLeaderboard_def init_leaderboard_page_def)
next
  case (snoc e es)
  from snoc.prems have "q \<in> set (leaderboard_requests es)
      \<or> q = (''period'', period_value (selected_period All_Time (es @ [e]))) #
              (if selected_room All_Rooms (es @ [e]) = All_Rooms then []
               else [(''room_type'', room_value (selected_room All_Rooms (es @ [e])))])"
    unfolding leaderboard_requests_snoc by (auto split: if_splits)
  then show ?case
  proof
    assume "q \<in> set (leaderboard_requests es)"
    from snoc.IH [OF this] obtain n where "n \<le> length es"
      and "q = (''period'', period_value (selected_period All_Time (take n es))) #
         (if selected_room All_Rooms (take n es) = All_Rooms then []
          else [(''room_type'', room_value (selected_room All_Rooms (take n es)))])"
      by blast
    then show ?thesis by (intro exI [of _ n]) simp
  next
    assume "q = (''period'', period_value (selected_period All_Time (es @ [e]))) #
              (if selected_room All_Rooms (es @ [e]) = All_Rooms then []
               else [(''room_type'', room_value (selected_room All_Rooms (es @ [e])))])"
    then show ?thesis by (intro exI [of _ "length (es @ [e])"]) simp
  qed
qed

text \<open>
  Claim C8. At mount the page requests the leaderboard for \<open>all_time\<close> with no room type.
  An event adds a request exactly when it changes the user's selection, and that
  request carries the selection as it is right after the event: the selected period,
  and a \<open>room_type\<close> parameter, with the selected value, exactly when the selected room
  option is not \<open>All Rooms\<close>. So every request the page issues has a \<open>period\<close> parameter
  that is one of \<open>daily\<close>, \<open>weekly\<close>, \<open>monthly\<close>, \<open>all_time\<close>, and a \<open>room_type\<close> parameter
  exactly when a specific room type is selected at that moment.
\<close>

theorem leaderboard_request_params:
  "leaderboard_requests [] = [[(''period'', ''all_time'')]]
   \<and> leaderboard_requests (es @ [e]) = leaderboard_requests es @
       (if selected_period All_Time (es @ [e]) = selected_period All_Time es
           \<and> selected_room All_Rooms (es @ [e]) = selected_room All_Rooms es
        then []
        else [(''period'', period_value (selected_period All_Time (es @ [e]))) #
                (if selected_room All_Rooms (es @ [e]) = All_Rooms then []
                 else [(''room_type'', room_value (selected_room All_Rooms (es @ [e])))])])
   \<and> (q \<in> set (leaderboard_requests es) \<longrightarrow>
        (\<exists>p\<in>{''daily'', ''weekly'', ''monthly'', ''all_time''}. map_of q ''period'' = Some p)
      \<and> (\<exists>n\<le>length es. map_of q ''room_type''
             = (if selected_room All_Rooms (take n es) = All_Rooms then None
                else Some (room_value (selected_room All_Rooms (take n es))))))"
proof -
  have a: "leaderboard_requests [] = [[(''period'', ''all_time'')]]"
    by (simp add: leaderboard_requests_def fetchLeaderboard_def init_leaderboard_page_def)
  have c: "(\<exists>p\<in>{''daily'', ''weekly'', ''monthly'', ''all_time''}. map_of q ''period'' = Some p)
      \<and> (\<exists>n\<le>length es. map_of q ''room_type''
             = (if selected_room All_Rooms (take n es) = All_Rooms then None
                else Some (room_value (selected_room All_Rooms (take n es)))))"
    if "q \<in> set (leaderboard_requests es)"
  proof -
    from leaderboard_requests_shape [OF that] obtain n where n: "n \<le> length es"
      and q: "q = (''period'', period_value (selected_period All_Time (take n es))) #
         (if selected_room All_Rooms (take n es) = All_Rooms then []
          else [(''room_type'', room_value (selected_room All_Rooms (take n es)))])"
      by blast
    have "\<exists>p\<in>{''daily'', ''weekly'', ''monthly'', ''all_time''}. map_of q ''period'' = Some p"
      unfolding q by (cases "selected_period All_Time (take n es)") simp_all
    moreover have "map_of q ''room_type''
             = (if selected_room All_Rooms (take n es) = All_Rooms then None
                else Some (room_value (selected_room All_Rooms (take n es))))"
      unfolding q by simp
    ultimately show ?thesis using n by blast
  qed
  from a leaderboard_requests_snoc [of es e] c show ?thesis by blast
qed

theorem leaderboard_request_params_witness:
  "leaderboard_requests ([select_room_type Poetry] @ [select_period Weekly])
     = leaderboard_requests [select_room_type Poetry] @ [[(''period'', ''weekly''), (''room_type'', ''poetry'')]]
   \<and> selected_period All_Time ([select_room_type Poetry] @ [select_period Weekly]) = Weekly
   \<and> selected_period All_Time [select_room_type Poetry] = All_Time
   \<and> selected_room All_Rooms ([select_room_type Poetry] @ [select_period Weekly]) = Poetry
   \<and> [(''period'', ''weekly''), (''room_type'', ''poetry'')]
       \<in> set (leaderboard_requests [select_room_type Poetry, select_period Weekly, select_room_type All_Rooms])
   \<and> leaderboard_requests [select_room_type Poetry, select_period Weekly, select_room_type All_Rooms]
      = [[(''period'', ''all_time'')], [(''period'', ''all_time''), (''room_type'', ''poetry'')],
         [(''period'', ''weekly''), (''room_type'', ''poetry'')], [(''period'', ''weekly'')]]
   \<and> map_of [(''period'', ''weekly''), (''room_type'', ''poetry'')] ''period'' = Some ''weekly''"
  using leaderboard_request_params [of "[select_room_type Poetry]" "select_period Weekly"
      "[(''period'', ''weekly''), (''room_type'', ''poetry'')]"]
    leaderboard_request_params [of "[select_room_type Poetry, select_period Weekly, select_room_type All_Rooms]"
      "fetch_failed" "[(''period'', ''weekly''), (''room_type'', ''poetry'')]"]
  by (simp add: leaderboard_requests_def leaderboard_step_def init_leaderboard_page_def
        fetchLeaderboard_def Let_def)

section \<open>Properties of the database schema\<close>

lemma build_row_lookup:
  "build_row env rows given cs = Inr r \<Longrightarrow> distinct (map col_name cs) \<Longrightarrow> c \<in> set cs
   \<Longrightarrow> \<exists>v. store_column env rows given c = Inr v \<and> map_of r (col_name c) = Some v"
proof (induction cs arbitrary: r)
  case Nil
  then show ?case by simp
next
  case (Cons a cs)
  from Cons.prems(1) obtain v r' where v: "store_column env rows given a = Inr v"
    and r': "build_row env rows given cs = Inr r'" and r: "r = (col_name a, v) # r'"
    by (auto split: sum.splits)
  show ?case
  proof (cases "c = a")
    case True
    with v r show ?thesis by simp
  next
    case False
    with Cons.prems have c: "c \<in> set cs" and d: "distinct (map col_name cs)" by auto
    have "col_name a \<notin> col_name ` set cs" using Cons.prems(2) by simp
    with c have ne: "col_name c \<noteq> col_name a" by (metis imageI)
    from Cons.IH [OF r' d c] ne r show ?thesis by simp
  qed
qed


lemma insert_row_result:
  assumes "insert_row t env rows given = Inr rows'"
  shows "\<exists>r. rows' = rows @ [r] \<and> build_row env rows given t = Inr r"
  using assms by (auto simp: insert_row_def split: if_splits sum.splits)


lemma training_batches_names:
  "map col_name training_batches = [''id'', ''misclassified_examples'', ''model_version'',
     ''training_started_at'', ''status'']"
  by (simp add: training_batches_def col_def)




lemma status_stored:
  assumes "insert_row training_batches env rows given = Inr rows'"
  shows "\<exists>v. store_column env rows given ((col ''status'' (VARCHAR 20))\<lparr>col_default := DEFAULT_STR ''pending''\<rparr>) = Inr v
            \<and> map_of (last rows') ''status'' = Some v \<and> rows' = rows @ [last rows']"
proof -
  from insert_row_result [OF assms(1)] obtain r where r: "rows' = rows @ [r]"
    and b: "build_row env rows given training_batches = Inr r" by blast
  have "distinct (map col_name training_batches)" by (simp add: training_batches_names)
  moreover have "(col ''status'' (VARCHAR 20))\<lparr>col_default := DEFAULT_STR ''pending''\<rparr> \<in> set training_batches"
    by (simp add: training_batches_def)
  ultimately obtain v where
    "store_column env rows given ((col ''status'' (VARCHAR 20))\<lparr>col_default := DEFAULT_STR ''pending''\<rparr>) = Inr v"
    and "map_of r (col_name ((col ''status'' (VARCHAR 20))\<lparr>col_default := DEFAULT_STR ''pending''\<rparr>)) = Some v"
    using build_row_lookup [OF b] by blast
  then show ?thesis using r by (simp add: col_def)
qed

lemma coerce_varchar:
  "coerce (VARCHAR k) n x = Inr v \<Longrightarrow> v = Null \<or> (\<exists>s. v = TextV s \<and> length s \<le> k)"
  by (cases x) (auto split: if_splits)




text \<open>
  An insert into \<open>training_batches\<close> with the status \<open>bogus\<close> is accepted and stored as
  given: the status of a stored record need not be one of the four values.
\<close>

theorem status_not_restricted:
  "insert_row training_batches \<lparr>now = 1000, nextval = 1\<rparr> [] [(''status'', TextV ''bogus'')]
     = Inr [[(''id'', IntV 1), (''misclassified_examples'', Null), (''model_version'', Null),
            (''training_started_at'', Null), (''status'', TextV ''bogus'')]]
   \<and> ''bogus'' \<notin> {''pending'', ''running'', ''done'', ''failed''}"
  by (simp add: insert_row_def training_batches_def col_def store_column_def column_input_def
      in_int4_def column_values_def)

text \<open>
  Claim C7, as the code has it. An accepted insert into \<open>training_batches\<close> adds one
  record; when the insert gives no status, the record's status is \<open>pending\<close>; the status
  of the record is null or a text of at most 20 characters.
\<close>

theorem training_batch_status:
  assumes "insert_row training_batches env rows given = Inr rows'"
  shows "rows' = rows @ [last rows']
       \<and> (map_of given ''status'' = None \<longrightarrow> map_of (last rows') ''status'' = Some (TextV ''pending''))
       \<and> (map_of (last rows') ''status'' = Some Null
          \<or> (\<exists>s. map_of (last rows') ''status'' = Some (TextV s) \<and> length s \<le> 20))"
proof -
  from status_stored [OF assms] obtain v where
    s: "store_column env rows given ((col ''status'' (VARCHAR 20))\<lparr>col_default := DEFAULT_STR ''pending''\<rparr>) = Inr v"
    and m: "map_of (last rows') ''status'' = Some v" and l: "rows' = rows @ [last rows']" by blast
  from s obtain x where "coerce (VARCHAR 20) ''status'' x = Inr v"
    by (auto simp: store_column_def col_def split: sum.splits)
  from coerce_varchar [OF this] m have "map_of (last rows') ''status'' = Some Null
          \<or> (\<exists>s. map_of (last rows') ''status'' = Some (TextV s) \<and> length s \<le> 20)" by auto
  moreover have "map_of given ''status'' = None \<longrightarrow> v = TextV ''pending''"
    using s by (auto simp: store_column_def column_input_def col_def split: if_splits)
  ultimately show ?thesis using m l by simp
qed

theorem training_batch_status_witness:
  "insert_row training_batches \<lparr>now = 1000, nextval = 1\<rparr> [] [(''model_version'', TextV ''v1.7'')]
     = Inr [[(''id'', IntV 1), (''misclassified_examples'', Null), (''model_version'', TextV ''v1.7''),
            (''training_started_at'', Null), (''status'', TextV ''pending'')]]
   \<and> map_of [(''model_version'', TextV ''v1.7'')] ''status'' = None
   \<and> map_of (last [[(''id'', IntV 1), (''misclassified_examples'', Null), (''model_version'', TextV ''v1.7''),
            (''training_started_at'', Null), (''status'', TextV ''pending'')]]) ''status''
       = Some (TextV ''pending'')"
proof -
  have a: "insert_row training_batches \<lparr>now = 1000, nextval = 1\<rparr> [] [(''model_version'', TextV ''v1.7'')]
     = Inr [[(''id'', IntV 1), (''misclassified_examples'', Null), (''model_version'', TextV ''v1.7''),
            (''training_started_at'', Null), (''status'', TextV ''pending'')]]"
    by (simp add: insert_row_def training_batches_def col_def store_column_def column_input_def
      in_int4_def column_values_def)
  show ?thesis using a training_batch_status [OF a] by simp
qed

section \<open>Properties of the room state machine\<close>

lemma room_step_counter: "round_counter r \<le> round_counter (fst (room_step e r))"
  by (cases e)
    (auto simp: start_round_def to_judging_def to_results_def abort_round_def Let_def
      split: phase.splits prod.splits)

lemma fst_room_run_Cons: "fst (room_run r (e # es)) = fst (room_run (fst (room_step e r)) es)"
  by (simp split: prod.splits)

lemma room_run_counter: "round_counter r \<le> round_counter (fst (room_run r es))"
proof (induction es arbitrary: r)
  case Nil
  then show ?case by simp
next
  case (Cons e es)
  have "round_counter r \<le> round_counter (fst (room_step e r))" by (rule room_step_counter)
  also have "\<dots> \<le> round_counter (fst (room_run (fst (room_step e r)) es))" by (rule Cons.IH)
  finally show ?case by (simp only: fst_room_run_Cons)
qed

text \<open>
  Claim C5. A timer that fires with a tag other than the room's current round counter
  changes nothing and broadcasts nothing. The round counter never decreases, so the
  timer of an earlier round is a no-op in every state the room reaches later, whatever
  the players did in between.
\<close>

theorem stale_timer_no_op:
  "(tag \<noteq> round_counter r \<longrightarrow> room_step (timer_fires tag) r = (r, []))
   \<and> (tag < round_counter r \<longrightarrow>
        room_step (timer_fires tag) (fst (room_run r es)) = (fst (room_run r es), []))"
proof -
  have "tag < round_counter r \<Longrightarrow> tag \<noteq> round_counter (fst (room_run r es))"
    using room_run_counter [of r es] by simp
  then show ?thesis by auto
qed

theorem stale_timer_no_op_witness:
  "round_counter (fst (room_run new_room
      [player_joins ''a'', player_joins ''b'', player_responds ''a'' ''x'', player_responds ''b'' ''y'',
       judge_returns, player_votes_for ''a'' Left, player_votes_for ''b'' Right, new_round_requested])) = 2
   \<and> armed_timer (fst (room_run new_room [player_joins ''a'', player_joins ''b''])) = Some 1
   \<and> (1::nat) \<noteq> 2 \<and> (1::nat) < 2
   \<and> room_run new_room
      [player_joins ''a'', player_joins ''b'', player_responds ''a'' ''x'', player_responds ''b'' ''y'',
       judge_returns, player_votes_for ''a'' Left, player_votes_for ''b'' Right, new_round_requested,
       timer_fires 1]
     = room_run new_room
      [player_joins ''a'', player_joins ''b'', player_responds ''a'' ''x'', player_responds ''b'' ''y'',
       judge_returns, player_votes_for ''a'' Left, player_votes_for ''b'' Right, new_round_requested]
   \<and> room_run new_room
      [player_joins ''a'', player_joins ''b'', player_responds ''a'' ''x'', player_responds ''b'' ''y'',
       judge_returns, player_votes_for ''a'' Left, player_votes_for ''b'' Right, new_round_requested,
       player_responds ''a'' ''z'', timer_fires 1]
     = room_run new_room
      [player_joins ''a'', player_joins ''b'', player_responds ''a'' ''x'', player_responds ''b'' ''y'',
       judge_returns, player_votes_for ''a'' Left, player_votes_for ''b'' Right, new_round_requested,
       player_responds ''a'' ''z'']"
  using stale_timer_no_op [of 1 "fst (room_run new_room
      [player_joins ''a'', player_joins ''b'', player_responds ''a'' ''x'', player_responds ''b'' ''y'',
       judge_returns, player_votes_for ''a'' Left, player_votes_for ''b'' Right, new_round_requested])"
      "[player_responds ''a'' ''z'']"]
  by (simp add: new_room_def start_round_def to_judging_def to_results_def Let_def)

end
